theory Spec2Isabelle
  imports Main
begin

section \<open>The store: tables, constraints and row policies of the migration\<close>

text \<open>
  The application keeps no state of its own beyond what its pages display: every handler
  issues statements against two tables of a hosted PostgreSQL store. The tables, their
  \<^verbatim>\<open>CHECK\<close> constraints, the foreign keys with \<^verbatim>\<open>ON DELETE CASCADE\<close> and the
  row-level-security policies are those of the migration file. Identifiers are UUID
  values, kept here as their text; instants are integers (the store parses the form's
  date-time text). The columns \<^verbatim>\<open>created_at\<close> and \<^verbatim>\<open>updated_at\<close> and the table
  \<^verbatim>\<open>profiles\<close> are left out: no handler below reads or writes them.
\<close>

type_synonym uuid = string
type_synonym timestamptz = int

text \<open>A row of \<^verbatim>\<open>public.events\<close>; the column \<^verbatim>\<open>id\<close> is \<open>event_id\<close>.\<close>

record event =
  event_id :: uuid
  user_id :: uuid
  title :: string
  start_time :: timestamptz
  end_time :: timestamptz
  status :: string

text \<open>
  A row of \<^verbatim>\<open>public.swap_requests\<close>; the columns \<^verbatim>\<open>id\<close> and \<^verbatim>\<open>status\<close> are
  \<open>request_id\<close> and \<open>request_status\<close>.
\<close>

record swap_request =
  request_id :: uuid
  requester_id :: uuid
  requester_event_id :: uuid
  recipient_id :: uuid
  recipient_event_id :: uuid
  request_status :: string

record store =
  events :: "event list"
  swap_requests :: "swap_request list"

datatype pg_error =
  TransportError
  | RlsViolation
  | CheckViolation
  | ForeignKeyViolation
  | UniqueViolation

text \<open>
  \<^verbatim>\<open>auth.uid() = x\<close>: the session's user, \<open>None\<close> when nobody is signed in (the
  comparison with SQL's \<^verbatim>\<open>NULL\<close> is then not true).
\<close>

definition auth_uid_eq :: "uuid option \<Rightarrow> uuid \<Rightarrow> bool" where
  "auth_uid_eq uid x = (uid = Some x)"

text \<open>
  The policies on \<^verbatim>\<open>events\<close>, in the order of the migration:
  \<^verbatim>\<open>Users can view their own events\<close> and
  \<^verbatim>\<open>Users can view swappable events from others\<close> (both for \<^verbatim>\<open>SELECT\<close> and both
  permissive, so a row is visible when either admits it),
  \<^verbatim>\<open>Users can create their own events\<close>, \<^verbatim>\<open>Users can update their own events\<close>
  and \<^verbatim>\<open>Users can delete their own events\<close>.
\<close>

definition events_select :: "uuid option \<Rightarrow> event \<Rightarrow> bool" where
  "events_select uid e = (auth_uid_eq uid (user_id e) \<or> status e = ''SWAPPABLE'')"

definition events_insert_check :: "uuid option \<Rightarrow> event \<Rightarrow> bool" where
  "events_insert_check uid e = auth_uid_eq uid (user_id e)"

definition events_update_using :: "uuid option \<Rightarrow> event \<Rightarrow> bool" where
  "events_update_using uid e = auth_uid_eq uid (user_id e)"

definition events_delete_using :: "uuid option \<Rightarrow> event \<Rightarrow> bool" where
  "events_delete_using uid e = auth_uid_eq uid (user_id e)"

text \<open>
  The policies on \<^verbatim>\<open>swap_requests\<close>: \<^verbatim>\<open>Users can view their own swap requests\<close>,
  \<^verbatim>\<open>Users can create swap requests\<close> and \<^verbatim>\<open>Recipients can update swap requests\<close>.
\<close>

definition requests_select :: "uuid option \<Rightarrow> swap_request \<Rightarrow> bool" where
  "requests_select uid r =
     (auth_uid_eq uid (requester_id r) \<or> auth_uid_eq uid (recipient_id r))"

definition requests_insert_check :: "uuid option \<Rightarrow> swap_request \<Rightarrow> bool" where
  "requests_insert_check uid r = auth_uid_eq uid (requester_id r)"

definition requests_update_using :: "uuid option \<Rightarrow> swap_request \<Rightarrow> bool" where
  "requests_update_using uid r = auth_uid_eq uid (recipient_id r)"

text \<open>The \<^verbatim>\<open>CHECK\<close> constraints of the two \<^verbatim>\<open>status\<close> columns.\<close>

definition events_status_check :: "string \<Rightarrow> bool" where
  "events_status_check s = (s = ''BUSY'' \<or> s = ''SWAPPABLE'' \<or> s = ''SWAP_PENDING'')"

definition requests_status_check :: "string \<Rightarrow> bool" where
  "requests_status_check s = (s = ''PENDING'' \<or> s = ''ACCEPTED'' \<or> s = ''REJECTED'')"

definition event_ids :: "store \<Rightarrow> uuid list" where
  "event_ids db = map event_id (events db)"

definition request_ids :: "store \<Rightarrow> uuid list" where
  "request_ids db = map request_id (swap_requests db)"

subsection \<open>Statements\<close>

text \<open>
  A statement either fails as a whole, leaving the store as it was, or takes effect.
  \<^verbatim>\<open>INSERT\<close>: the new row must pass the policy's \<^verbatim>\<open>WITH CHECK\<close>, the column
  constraint, the primary key and, for a request, both foreign keys. The row's id is the
  value \<^verbatim>\<open>gen_random_uuid()\<close> produced, given here as part of the row.
\<close>

definition insert_event :: "uuid option \<Rightarrow> event \<Rightarrow> store \<Rightarrow> pg_error + store" where
  "insert_event uid e db =
     (if \<not> events_insert_check uid e then Inl RlsViolation
      else if \<not> events_status_check (status e) then Inl CheckViolation
      else if event_id e \<in> set (event_ids db) then Inl UniqueViolation
      else Inr (db\<lparr>events := events db @ [e]\<rparr>))"

definition insert_swap_request ::
  "uuid option \<Rightarrow> swap_request \<Rightarrow> store \<Rightarrow> pg_error + store" where
  "insert_swap_request uid r db =
     (if \<not> requests_insert_check uid r then Inl RlsViolation
      else if \<not> requests_status_check (request_status r) then Inl CheckViolation
      else if request_id r \<in> set (request_ids db) then Inl UniqueViolation
      else if requester_event_id r \<in> set (event_ids db)
              \<and> recipient_event_id r \<in> set (event_ids db)
        then Inr (db\<lparr>swap_requests := swap_requests db @ [r]\<rparr>)
      else Inl ForeignKeyViolation)"

text \<open>
  The object given to \<^verbatim>\<open>.update({...})\<close> on \<^verbatim>\<open>events\<close>: the handlers set
  \<^verbatim>\<open>status\<close>, and the accept handler \<^verbatim>\<open>user_id\<close> as well.
\<close>

record events_patch =
  set_user_id :: "uuid option"
  set_status :: "string option"

definition apply_patch :: "events_patch \<Rightarrow> event \<Rightarrow> event" where
  "apply_patch p e =
     e\<lparr>user_id := (case set_user_id p of None \<Rightarrow> user_id e | Some u \<Rightarrow> u),
       status := (case set_status p of None \<Rightarrow> status e | Some s \<Rightarrow> s)\<rparr>"

text \<open>
  \<^verbatim>\<open>UPDATE events SET ... WHERE id IN (...)\<close> under row-level security. The statement
  sees only the rows that the \<^verbatim>\<open>SELECT\<close> policies and the \<^verbatim>\<open>UPDATE\<close> policy's
  \<^verbatim>\<open>USING\<close> admit; a row it does not see is skipped without an error. The policy
  names no \<^verbatim>\<open>WITH CHECK\<close>, so its \<^verbatim>\<open>USING\<close> expression is also checked on each new
  row, and a new row that fails it aborts the statement.
\<close>

definition events_update_target :: "uuid option \<Rightarrow> uuid list \<Rightarrow> event \<Rightarrow> bool" where
  "events_update_target uid ids e =
     (event_id e \<in> set ids \<and> events_select uid e \<and> events_update_using uid e)"

definition update_events ::
  "uuid option \<Rightarrow> events_patch \<Rightarrow> uuid list \<Rightarrow> store \<Rightarrow> pg_error + store" where
  "update_events uid p ids db =
     (let new_rows = map (apply_patch p) (filter (events_update_target uid ids) (events db))
      in if \<not> list_all (\<lambda>n. events_update_using uid n \<and> events_select uid n) new_rows
           then Inl RlsViolation
         else if \<not> list_all (\<lambda>n. events_status_check (status n)) new_rows
           then Inl CheckViolation
         else Inr (db\<lparr>events :=
                map (\<lambda>e. if events_update_target uid ids e then apply_patch p e else e)
                  (events db)\<rparr>))"

text \<open>\<^verbatim>\<open>UPDATE swap_requests SET status = ... WHERE id = ...\<close>, likewise.\<close>

definition requests_update_target :: "uuid option \<Rightarrow> uuid \<Rightarrow> swap_request \<Rightarrow> bool" where
  "requests_update_target uid rid r =
     (request_id r = rid \<and> requests_select uid r \<and> requests_update_using uid r)"

definition update_swap_requests ::
  "uuid option \<Rightarrow> string \<Rightarrow> uuid \<Rightarrow> store \<Rightarrow> pg_error + store" where
  "update_swap_requests uid s rid db =
     (let new_rows = map (\<lambda>r. r\<lparr>request_status := s\<rparr>)
                       (filter (requests_update_target uid rid) (swap_requests db))
      in if \<not> list_all (\<lambda>n. requests_update_using uid n \<and> requests_select uid n) new_rows
           then Inl RlsViolation
         else if \<not> list_all (\<lambda>n. requests_status_check (request_status n)) new_rows
           then Inl CheckViolation
         else Inr (db\<lparr>swap_requests :=
                map (\<lambda>r. if requests_update_target uid rid r then r\<lparr>request_status := s\<rparr> else r)
                  (swap_requests db)\<rparr>))"

text \<open>
  \<^verbatim>\<open>DELETE FROM events WHERE id = ...\<close>: the rows the caller may delete go, and
  \<^verbatim>\<open>ON DELETE CASCADE\<close> removes every request that references one of them by either
  foreign key.
\<close>

definition events_delete_target :: "uuid option \<Rightarrow> uuid \<Rightarrow> event \<Rightarrow> bool" where
  "events_delete_target uid eid e =
     (event_id e = eid \<and> events_select uid e \<and> events_delete_using uid e)"

definition delete_events :: "uuid option \<Rightarrow> uuid \<Rightarrow> store \<Rightarrow> pg_error + store" where
  "delete_events uid eid db =
     (let gone = map event_id (filter (events_delete_target uid eid) (events db))
      in Inr (db\<lparr>events := filter (\<lambda>e. \<not> events_delete_target uid eid e) (events db),
                 swap_requests :=
                   filter (\<lambda>r. \<not> (requester_event_id r \<in> set gone
                                    \<or> recipient_event_id r \<in> set gone))
                     (swap_requests db)\<rparr>))"

subsection \<open>Calls from the browser\<close>

text \<open>
  Every \<^verbatim>\<open>await supabase.from(...)\<close> is one statement sent over the network, in the
  name of the signed-in user. The \<open>k\<close>-th call of a handler is dropped when the handler's
  \<open>network\<close> says so at \<open>k\<close>: the statement then never reaches the store and the handler
  sees an error. The empty list drops nothing.
\<close>

type_synonym network = "bool list"

definition lost :: "network \<Rightarrow> nat \<Rightarrow> bool" where
  "lost net k = (k < length net \<and> net ! k)"

definition supabase_call ::
  "bool \<Rightarrow> (store \<Rightarrow> pg_error + store) \<Rightarrow> store \<Rightarrow> pg_error + store" where
  "supabase_call dropped stmt db = (if dropped then Inl TransportError else stmt db)"

text \<open>The store after a call: changed by a statement that took effect, else as before.\<close>

definition store_after :: "store \<Rightarrow> pg_error + store \<Rightarrow> store" where
  "store_after db res = (case res of Inl err \<Rightarrow> db | Inr db' \<Rightarrow> db')"

datatype toast = Success string | Error string | Silent

section \<open>The handlers\<close>

text \<open>
  Each handler is given the session's user (\<^verbatim>\<open>useAuth()\<close>, which is also what
  \<^verbatim>\<open>auth.uid()\<close> is in the store), the fate of its calls, its own arguments and the
  store; it returns the notification it shows and the store it leaves. What a handler
  does to the page afterwards (closing a dialog, fetching the lists again) is not part of
  the store and is left out.
\<close>

subsection \<open>Dashboard\<close>

text \<open>
  \<open>handleCreateEvent\<close> reads title, start and end from the form and inserts a
  \<^verbatim>\<open>BUSY\<close> event for the user; \<open>new_id\<close> is the id the store generates for the row.
  \<open>toggleSwappable\<close> is called with an event's id and the status the page shows for it.
\<close>

definition handleCreateEvent ::
  "uuid option \<Rightarrow> network \<Rightarrow> uuid \<Rightarrow> string \<Rightarrow> timestamptz \<Rightarrow> timestamptz \<Rightarrow> store
     \<Rightarrow> toast \<times> store" where
  "handleCreateEvent user net new_id title' startTime endTime db =
     (case user of
        None \<Rightarrow> (Silent, db)
      | Some u \<Rightarrow>
          (case supabase_call (lost net 0)
                  (insert_event user
                     \<lparr>event_id = new_id, user_id = u, title = title',
                      start_time = startTime, end_time = endTime, status = ''BUSY''\<rparr>) db of
             Inl err \<Rightarrow> (Error ''Failed to create event'', db)
           | Inr db' \<Rightarrow> (Success ''Event created!'', db')))"

definition toggleSwappable ::
  "uuid option \<Rightarrow> network \<Rightarrow> uuid \<Rightarrow> string \<Rightarrow> store \<Rightarrow> toast \<times> store" where
  "toggleSwappable user net eventId currentStatus db =
     (if currentStatus = ''SWAP_PENDING''
        then (Error ''Cannot modify event with pending swap'', db)
      else
        (let newStatus = (if currentStatus = ''BUSY'' then ''SWAPPABLE'' else ''BUSY'')
         in case supabase_call (lost net 0)
                   (update_events user \<lparr>set_user_id = None, set_status = Some newStatus\<rparr>
                      [eventId]) db of
              Inl err \<Rightarrow> (Error ''Failed to update event'', db)
            | Inr db' \<Rightarrow>
                (Success (if newStatus = ''SWAPPABLE'' then ''Event marked as swappable''
                          else ''Event marked as busy''), db')))"

definition deleteEvent :: "uuid option \<Rightarrow> network \<Rightarrow> uuid \<Rightarrow> store \<Rightarrow> toast \<times> store" where
  "deleteEvent user net eventId db =
     (case supabase_call (lost net 0) (delete_events user eventId) db of
        Inl err \<Rightarrow> (Error ''Failed to delete event'', db)
      | Inr db' \<Rightarrow> (Success ''Event deleted'', db'))"

subsection \<open>Marketplace\<close>

text \<open>
  \<open>selectedSlot\<close> is the listed slot the user picked (a row of \<^verbatim>\<open>events\<close> as the page
  fetched it), \<open>myEventId\<close> the id of the slot offered for it.
\<close>

definition requestSwap ::
  "uuid option \<Rightarrow> network \<Rightarrow> uuid \<Rightarrow> uuid \<Rightarrow> event option \<Rightarrow> store \<Rightarrow> toast \<times> store" where
  "requestSwap user net new_id myEventId selectedSlot db =
     (case (user, selectedSlot) of
        (Some u, Some slot) \<Rightarrow>
          (case supabase_call (lost net 0)
                  (insert_swap_request user
                     \<lparr>request_id = new_id, requester_id = u, requester_event_id = myEventId,
                      recipient_id = user_id slot, recipient_event_id = event_id slot,
                      request_status = ''PENDING''\<rparr>) db of
             Inl err \<Rightarrow> (Error ''Failed to create swap request'', db)
           | Inr db1 \<Rightarrow>
               (case supabase_call (lost net 1)
                       (update_events user
                          \<lparr>set_user_id = None, set_status = Some ''SWAP_PENDING''\<rparr>
                          [myEventId, event_id slot]) db1 of
                  Inl updateError \<Rightarrow> (Error ''Failed to update event status'', db1)
                | Inr db2 \<Rightarrow> (Success ''Swap request sent!'', db2)))
      | _ \<Rightarrow> (Silent, db))"

subsection \<open>Requests\<close>

text \<open>
  The request object of the inbox page: the row of \<^verbatim>\<open>swap_requests\<close> together with
  the two events the page looked up for it. The handlers address the events through
  \<^verbatim>\<open>request.requester_event.id\<close> and \<^verbatim>\<open>request.recipient_event.id\<close>. (For an
  event the page could not read, its lookup falls back to a placeholder with an empty
  id, which matches no row; the worked exchange below hands the handlers the true ids.)
\<close>

record event_ref =
  ref_id :: uuid
  ref_title :: string

record SwapRequest = swap_request +
  requester_event :: event_ref
  recipient_event :: event_ref

definition handleAcceptSwap ::
  "uuid option \<Rightarrow> network \<Rightarrow> SwapRequest \<Rightarrow> store \<Rightarrow> toast \<times> store" where
  "handleAcceptSwap user net request db =
     (case supabase_call (lost net 0)
             (update_swap_requests user ''ACCEPTED'' (request_id request)) db of
        Inl updateError \<Rightarrow> (Error ''Failed to accept swap'', db)
      | Inr db1 \<Rightarrow>
          (let swap1 = supabase_call (lost net 1)
                 (update_events user
                    \<lparr>set_user_id = Some (recipient_id request), set_status = Some ''BUSY''\<rparr>
                    [ref_id (requester_event request)]) db1;
               db2 = store_after db1 swap1;
               swap2 = supabase_call (lost net 2)
                 (update_events user
                    \<lparr>set_user_id = Some (requester_id request), set_status = Some ''BUSY''\<rparr>
                    [ref_id (recipient_event request)]) db2;
               db3 = store_after db2 swap2
           in if isl swap1 \<or> isl swap2 then (Error ''Failed to swap events'', db3)
              else (Success ''Swap accepted! Events have been exchanged.'', db3)))"

definition handleRejectSwap ::
  "uuid option \<Rightarrow> network \<Rightarrow> SwapRequest \<Rightarrow> store \<Rightarrow> toast \<times> store" where
  "handleRejectSwap user net request db =
     (case supabase_call (lost net 0)
             (update_swap_requests user ''REJECTED'' (request_id request)) db of
        Inl updateError \<Rightarrow> (Error ''Failed to reject swap'', db)
      | Inr db1 \<Rightarrow>
          (case supabase_call (lost net 1)
                  (update_events user \<lparr>set_user_id = None, set_status = Some ''SWAPPABLE''\<rparr>
                     [ref_id (requester_event request), ref_id (recipient_event request)])
                  db1 of
             Inl resetError \<Rightarrow> (Error ''Failed to reset event status'', db1)
           | Inr db2 \<Rightarrow> (Success ''Swap rejected. Events are now available again.'', db2)))"

section \<open>Sequences of operations\<close>

text \<open>
  One user action: a handler together with the session it runs in, the fate of its calls
  on the network and its arguments. A handler whose later calls are dropped leaves the
  store as it stands between two of its writes, so the stores reached by sequences of
  actions include every intermediate one.
\<close>

datatype action =
  CreateEvent "uuid option" network uuid string timestamptz timestamptz
  | ToggleSwappable "uuid option" network uuid string
  | DeleteEvent "uuid option" network uuid
  | RequestSwap "uuid option" network uuid uuid "event option"
  | AcceptSwap "uuid option" network SwapRequest
  | RejectSwap "uuid option" network SwapRequest

fun perform :: "action \<Rightarrow> store \<Rightarrow> store" where
  "perform (CreateEvent user net new_id t st en) db =
     snd (handleCreateEvent user net new_id t st en db)"
| "perform (ToggleSwappable user net eventId currentStatus) db =
     snd (toggleSwappable user net eventId currentStatus db)"
| "perform (DeleteEvent user net eventId) db = snd (deleteEvent user net eventId db)"
| "perform (RequestSwap user net new_id myEventId selectedSlot) db =
     snd (requestSwap user net new_id myEventId selectedSlot db)"
| "perform (AcceptSwap user net request) db = snd (handleAcceptSwap user net request db)"
| "perform (RejectSwap user net request) db = snd (handleRejectSwap user net request db)"

definition empty_store :: store where
  "empty_store = \<lparr>events = [], swap_requests = []\<rparr>"

text \<open>The store that a sequence of actions, run from the empty store, leaves behind.\<close>

definition run :: "action list \<Rightarrow> store" where
  "run as = fold perform as empty_store"

subsection \<open>Invariants of the store\<close>

definition status_ok :: "store \<Rightarrow> bool" where
  "status_ok db = list_all (\<lambda>e. events_status_check (status e)) (events db)"

definition references_ok :: "store \<Rightarrow> bool" where
  "references_ok db =
     list_all (\<lambda>r. requester_event_id r \<in> set (event_ids db)
                    \<and> recipient_event_id r \<in> set (event_ids db)) (swap_requests db)"

definition keys_ok :: "store \<Rightarrow> bool" where
  "keys_ok db = (distinct (event_ids db) \<and> distinct (request_ids db))"

definition store_ok :: "store \<Rightarrow> bool" where
  "store_ok db = (status_ok db \<and> references_ok db \<and> keys_ok db)"

subsection \<open>A worked exchange\<close>

text \<open>
  Alice and Bob each list one slot; Alice offers hers for Bob's. \<open>store_listed\<close> is the
  store before the proposal, \<open>store_proposed\<close> the store after it, and \<open>inbox_request\<close>
  the request as Bob's inbox hands it to the accept and reject handlers.
\<close>

definition slot_a :: event where
  "slot_a = \<lparr>event_id = ''e1'', user_id = ''alice'', title = ''Standup'',
             start_time = 9, end_time = 10, status = ''SWAPPABLE''\<rparr>"

definition slot_b :: event where
  "slot_b = \<lparr>event_id = ''e2'', user_id = ''bob'', title = ''Review'',
             start_time = 14, end_time = 15, status = ''SWAPPABLE''\<rparr>"

definition store_listed :: store where
  "store_listed = \<lparr>events = [slot_a, slot_b], swap_requests = []\<rparr>"

definition pending_request :: swap_request where
  "pending_request =
     \<lparr>request_id = ''r1'', requester_id = ''alice'', requester_event_id = ''e1'',
      recipient_id = ''bob'', recipient_event_id = ''e2'', request_status = ''PENDING''\<rparr>"

definition store_proposed :: store where
  "store_proposed =
     \<lparr>events = [slot_a\<lparr>status := ''SWAP_PENDING''\<rparr>, slot_b],
      swap_requests = [pending_request]\<rparr>"

definition inbox_request :: SwapRequest where
  "inbox_request =
     \<lparr>request_id = ''r1'', requester_id = ''alice'', requester_event_id = ''e1'',
      recipient_id = ''bob'', recipient_event_id = ''e2'', request_status = ''PENDING'',
      requester_event = \<lparr>ref_id = ''e1'', ref_title = ''Standup''\<rparr>,
      recipient_event = \<lparr>ref_id = ''e2'', ref_title = ''Review''\<rparr>\<rparr>"

text \<open>
  The same store after Bob has rejected the request, and the five actions that lead from
  the empty store to \<open>store_proposed\<close>.
\<close>

definition store_rejected :: store where
  "store_rejected =
     store_proposed\<lparr>swap_requests := [pending_request\<lparr>request_status := ''REJECTED''\<rparr>]\<rparr>"

definition exchange_actions :: "action list" where
  "exchange_actions =
     [CreateEvent (Some ''alice'') [] ''e1'' ''Standup'' 9 10,
      CreateEvent (Some ''bob'') [] ''e2'' ''Review'' 14 15,
      ToggleSwappable (Some ''alice'') [] ''e1'' ''BUSY'',
      ToggleSwappable (Some ''bob'') [] ''e2'' ''BUSY'',
      RequestSwap (Some ''alice'') [] ''r1'' ''e1'' (Some slot_b)]"

subsection \<open>What the accept handler's writes do to a row\<close>

text \<open>
  The row-wise effect of the three statements of \<open>handleAcceptSwap\<close>, as the lemmas
  below derive it from the statements and the policies: the request's status is written
  for the recipient; an event is written only for its owner, and only when the owner
  written is the owner it has.
\<close>

definition accept_request_row :: "uuid option \<Rightarrow> uuid \<Rightarrow> swap_request \<Rightarrow> swap_request" where
  "accept_request_row uid rid r =
     (if request_id r = rid \<and> uid = Some (recipient_id r)
      then r\<lparr>request_status := ''ACCEPTED''\<rparr> else r)"

definition hand_over_row :: "uuid option \<Rightarrow> uuid \<Rightarrow> uuid \<Rightarrow> event \<Rightarrow> event" where
  "hand_over_row uid x eid e =
     (if event_id e = eid \<and> uid = Some (user_id e) \<and> x = user_id e
      then e\<lparr>status := ''BUSY''\<rparr> else e)"

section \<open>Properties of the statements\<close>

lemma event_id_apply_patch [simp]: "event_id (apply_patch p e) = event_id e"
  by (simp add: apply_patch_def)

lemma list_all_patched:
  assumes "list_all P xs" and "list_all P (map f (filter t xs))"
  shows "list_all P (map (\<lambda>x. if t x then f x else x) xs)"
  using assms by (induction xs) auto

lemma insert_event_ok:
  assumes "store_ok db" and "insert_event uid e db = Inr db'"
  shows "store_ok db'"
  using assms
  by (auto simp: insert_event_def store_ok_def status_ok_def references_ok_def keys_ok_def
        event_ids_def request_ids_def list_all_iff split: if_splits)

lemma insert_swap_request_ok:
  assumes "store_ok db" and "insert_swap_request uid r db = Inr db'"
  shows "store_ok db'"
  using assms
  by (auto simp: insert_swap_request_def store_ok_def status_ok_def references_ok_def keys_ok_def
        event_ids_def request_ids_def list_all_iff split: if_splits)

lemma map_event_id_patched [simp]:
  "map (\<lambda>e. event_id (if t e then apply_patch p e else e)) xs = map event_id xs"
  by (induction xs) auto

lemma map_request_id_updated [simp]:
  "map (\<lambda>r. request_id (if t r then r\<lparr>request_status := s\<rparr> else r)) xs = map request_id xs"
  by (induction xs) auto

lemma update_events_ids:
  "update_events uid p ids db = Inr db' \<Longrightarrow> event_ids db' = event_ids db"
  by (auto simp: update_events_def event_ids_def Let_def o_def split: if_splits)

lemma update_events_requests:
  "update_events uid p ids db = Inr db' \<Longrightarrow> swap_requests db' = swap_requests db"
  by (auto simp: update_events_def Let_def split: if_splits)

lemma update_events_status:
  assumes "status_ok db" and "update_events uid p ids db = Inr db'"
  shows "status_ok db'"
  using assms
  by (auto simp: update_events_def status_ok_def Let_def split: if_splits
           intro: list_all_patched)

lemma update_events_ok:
  assumes "store_ok db" and "update_events uid p ids db = Inr db'"
  shows "store_ok db'"
  using assms update_events_ids [OF assms(2)] update_events_requests [OF assms(2)]
    update_events_status [OF _ assms(2)]
  by (simp add: store_ok_def references_ok_def keys_ok_def request_ids_def)

lemma update_swap_requests_ok:
  assumes "store_ok db" and "update_swap_requests uid s rid db = Inr db'"
  shows "store_ok db'"
  using assms
  by (auto simp: update_swap_requests_def store_ok_def status_ok_def references_ok_def keys_ok_def
        event_ids_def request_ids_def list_all_iff Let_def o_def split: if_splits)

lemma kept_id:
  "x \<in> f ` set xs \<Longrightarrow> x \<notin> f ` {y \<in> set xs. t y} \<Longrightarrow> x \<in> f ` {y \<in> set xs. \<not> t y}"
  by blast

lemma delete_events_references:
  assumes "references_ok db" and "delete_events uid eid db = Inr db'"
  shows "references_ok db'"
proof -
  let ?t = "events_delete_target uid eid"
  let ?gone = "event_id ` {y \<in> set (events db). ?t y}"
  have ev: "set (event_ids db') = event_id ` {y \<in> set (events db). \<not> ?t y}"
    using assms(2) by (auto simp: delete_events_def event_ids_def)
  have rq: "set (swap_requests db') =
      {r \<in> set (swap_requests db). requester_event_id r \<notin> ?gone \<and> recipient_event_id r \<notin> ?gone}"
    using assms(2) by (auto simp: delete_events_def)
  have old: "\<forall>r \<in> set (swap_requests db).
      requester_event_id r \<in> event_id ` set (events db) \<and>
      recipient_event_id r \<in> event_id ` set (events db)"
    using assms(1) by (simp add: references_ok_def list_all_iff event_ids_def)
  show ?thesis
    unfolding references_ok_def list_all_iff ev rq
    using old kept_id [of _ event_id "events db" ?t] by blast
qed

lemma delete_events_ok:
  assumes "store_ok db" and "delete_events uid eid db = Inr db'"
  shows "store_ok db'"
proof -
  have "status_ok db'"
    using assms by (auto simp: delete_events_def store_ok_def status_ok_def list_all_iff)
  moreover have "references_ok db'"
    using assms delete_events_references by (auto simp: store_ok_def)
  moreover have "keys_ok db'"
    using assms
    by (auto simp: delete_events_def store_ok_def keys_ok_def event_ids_def request_ids_def
          distinct_map_filter)
  ultimately show ?thesis by (simp add: store_ok_def)
qed

lemma store_after_simps [simp]:
  "store_after db (Inl err) = db" "store_after db (Inr db') = db'"
  by (simp_all add: store_after_def)

lemma call_update_events_ok:
  assumes "store_ok db"
  shows "store_ok (store_after db (supabase_call dropped (update_events uid p ids) db))"
  using assms update_events_ok
  by (auto simp: supabase_call_def store_after_def split: sum.splits)

lemma call_update_swap_requests_ok:
  assumes "store_ok db"
  shows "store_ok (store_after db (supabase_call dropped (update_swap_requests uid s rid) db))"
  using assms update_swap_requests_ok
  by (auto simp: supabase_call_def store_after_def split: sum.splits)

lemma call_insert_event_ok:
  assumes "store_ok db"
  shows "store_ok (store_after db (supabase_call dropped (insert_event uid e) db))"
  using assms insert_event_ok
  by (auto simp: supabase_call_def store_after_def split: sum.splits)

lemma call_insert_swap_request_ok:
  assumes "store_ok db"
  shows "store_ok (store_after db (supabase_call dropped (insert_swap_request uid r) db))"
  using assms insert_swap_request_ok
  by (auto simp: supabase_call_def store_after_def split: sum.splits)

lemma call_delete_events_ok:
  assumes "store_ok db"
  shows "store_ok (store_after db (supabase_call dropped (delete_events uid eid) db))"
  using assms delete_events_ok
  by (auto simp: supabase_call_def store_after_def split: sum.splits)

lemma handleCreateEvent_store:
  "snd (handleCreateEvent user net new_id t st en db) =
     (case user of None \<Rightarrow> db
      | Some u \<Rightarrow> store_after db (supabase_call (lost net 0)
          (insert_event user \<lparr>event_id = new_id, user_id = u, title = t,
             start_time = st, end_time = en, status = ''BUSY''\<rparr>) db))"
  by (simp add: handleCreateEvent_def store_after_def split: option.splits sum.splits)

lemma handleCreateEvent_ok:
  "store_ok db \<Longrightarrow> store_ok (snd (handleCreateEvent user net new_id t st en db))"
  by (simp add: handleCreateEvent_store call_insert_event_ok split: option.splits)

lemma toggleSwappable_store:
  "snd (toggleSwappable user net eventId currentStatus db) =
     (if currentStatus = ''SWAP_PENDING'' then db
      else store_after db (supabase_call (lost net 0)
             (update_events user
                \<lparr>set_user_id = None,
                 set_status = Some (if currentStatus = ''BUSY'' then ''SWAPPABLE'' else ''BUSY'')\<rparr>
                [eventId]) db))"
  by (simp add: toggleSwappable_def store_after_def Let_def split: sum.splits)

lemma toggleSwappable_ok:
  "store_ok db \<Longrightarrow> store_ok (snd (toggleSwappable user net eventId currentStatus db))"
  by (simp add: toggleSwappable_store call_update_events_ok)

lemma deleteEvent_store:
  "snd (deleteEvent user net eventId db) =
     store_after db (supabase_call (lost net 0) (delete_events user eventId) db)"
  by (simp add: deleteEvent_def store_after_def split: sum.splits)

lemma deleteEvent_ok:
  "store_ok db \<Longrightarrow> store_ok (snd (deleteEvent user net eventId db))"
  by (simp add: deleteEvent_store call_delete_events_ok)

lemma requestSwap_store:
  "snd (requestSwap user net new_id myEventId selectedSlot db) =
     (case (user, selectedSlot) of
        (Some u, Some slot) \<Rightarrow>
          (case supabase_call (lost net 0)
                  (insert_swap_request user
                     \<lparr>request_id = new_id, requester_id = u, requester_event_id = myEventId,
                      recipient_id = user_id slot, recipient_event_id = event_id slot,
                      request_status = ''PENDING''\<rparr>) db of
             Inl err \<Rightarrow> db
           | Inr db1 \<Rightarrow> store_after db1 (supabase_call (lost net 1)
                       (update_events user
                          \<lparr>set_user_id = None, set_status = Some ''SWAP_PENDING''\<rparr>
                          [myEventId, event_id slot]) db1))
      | _ \<Rightarrow> db)"
  by (simp add: requestSwap_def store_after_def split: option.splits sum.splits)

lemma requestSwap_ok:
  assumes "store_ok db"
  shows "store_ok (snd (requestSwap user net new_id myEventId selectedSlot db))"
proof (cases "user")
  case None
  then show ?thesis using assms by (simp add: requestSwap_store)
next
  case (Some u)
  show ?thesis
  proof (cases selectedSlot)
    case None
    then show ?thesis using assms Some by (simp add: requestSwap_store)
  next
    case (Some slot)
    let ?r = "\<lparr>request_id = new_id, requester_id = u, requester_event_id = myEventId,
                recipient_id = user_id slot, recipient_event_id = event_id slot,
                request_status = ''PENDING''\<rparr>"
    let ?c = "supabase_call (lost net 0) (insert_swap_request user ?r) db"
    have "store_ok (store_after db ?c)"
      using assms by (rule call_insert_swap_request_ok)
    then show ?thesis
      using assms \<open>user = Some u\<close> Some
      by (cases ?c) (simp_all add: requestSwap_store call_update_events_ok)
  qed
qed

lemma handleAcceptSwap_store:
  "snd (handleAcceptSwap user net request db) =
     (case supabase_call (lost net 0)
             (update_swap_requests user ''ACCEPTED'' (request_id request)) db of
        Inl err \<Rightarrow> db
      | Inr db1 \<Rightarrow>
          (let db2 = store_after db1 (supabase_call (lost net 1)
                 (update_events user
                    \<lparr>set_user_id = Some (recipient_id request), set_status = Some ''BUSY''\<rparr>
                    [ref_id (requester_event request)]) db1)
           in store_after db2 (supabase_call (lost net 2)
                 (update_events user
                    \<lparr>set_user_id = Some (requester_id request), set_status = Some ''BUSY''\<rparr>
                    [ref_id (recipient_event request)]) db2)))"
  by (simp add: handleAcceptSwap_def Let_def split: sum.splits)

lemma handleAcceptSwap_ok:
  assumes "store_ok db"
  shows "store_ok (snd (handleAcceptSwap user net request db))"
proof -
  let ?c = "supabase_call (lost net 0)
              (update_swap_requests user ''ACCEPTED'' (request_id request)) db"
  have "store_ok (store_after db ?c)"
    using assms by (rule call_update_swap_requests_ok)
  then show ?thesis
    using assms
    by (cases ?c)
      (simp_all add: handleAcceptSwap_store Let_def call_update_events_ok)
qed

lemma handleRejectSwap_store:
  "snd (handleRejectSwap user net request db) =
     (case supabase_call (lost net 0)
             (update_swap_requests user ''REJECTED'' (request_id request)) db of
        Inl err \<Rightarrow> db
      | Inr db1 \<Rightarrow> store_after db1 (supabase_call (lost net 1)
            (update_events user \<lparr>set_user_id = None, set_status = Some ''SWAPPABLE''\<rparr>
               [ref_id (requester_event request), ref_id (recipient_event request)]) db1))"
  by (simp add: handleRejectSwap_def store_after_def split: sum.splits)

lemma handleRejectSwap_ok:
  assumes "store_ok db"
  shows "store_ok (snd (handleRejectSwap user net request db))"
proof -
  let ?c = "supabase_call (lost net 0)
              (update_swap_requests user ''REJECTED'' (request_id request)) db"
  have "store_ok (store_after db ?c)"
    using assms by (rule call_update_swap_requests_ok)
  then show ?thesis
    using assms
    by (cases ?c)
      (simp_all add: handleRejectSwap_store call_update_events_ok)
qed

subsection \<open>The effect of an update\<close>

lemma update_swap_requests_effect:
  assumes "requests_status_check s"
  shows "update_swap_requests uid s rid db =
     Inr (db\<lparr>swap_requests :=
            map (\<lambda>r. if request_id r = rid \<and> uid = Some (recipient_id r)
                      then r\<lparr>request_status := s\<rparr> else r) (swap_requests db)\<rparr>)"
proof -
  have t: "requests_update_target uid rid r
             \<longleftrightarrow> request_id r = rid \<and> uid = Some (recipient_id r)" for r
    by (auto simp: requests_update_target_def requests_select_def requests_update_using_def
          auth_uid_eq_def)
  show ?thesis
    using assms
    by (simp add: update_swap_requests_def Let_def list_all_iff t requests_update_using_def
          requests_select_def auth_uid_eq_def)
qed

lemma events_update_target_iff:
  "events_update_target uid ids e \<longleftrightarrow> event_id e \<in> set ids \<and> uid = Some (user_id e)"
  by (auto simp: events_update_target_def events_select_def events_update_using_def
        auth_uid_eq_def)

lemma update_events_status_effect:
  assumes "events_status_check s"
  shows "update_events uid \<lparr>set_user_id = None, set_status = Some s\<rparr> ids db =
     Inr (db\<lparr>events :=
            map (\<lambda>e. if event_id e \<in> set ids \<and> uid = Some (user_id e)
                      then e\<lparr>status := s\<rparr> else e) (events db)\<rparr>)"
  using assms
  by (simp add: update_events_def Let_def list_all_iff events_update_target_iff
        events_update_using_def events_select_def auth_uid_eq_def apply_patch_def)

lemma update_events_owner_effect:
  assumes "events_status_check s"
  shows "store_after db
           (supabase_call dropped
              (update_events uid \<lparr>set_user_id = Some x, set_status = Some s\<rparr> ids) db) =
     (if dropped then db
      else db\<lparr>events :=
            map (\<lambda>e. if event_id e \<in> set ids \<and> uid = Some (user_id e) \<and> x = user_id e
                      then e\<lparr>status := s\<rparr> else e) (events db)\<rparr>)"
proof (cases "dropped")
  case True
  then show ?thesis by (simp add: supabase_call_def)
next
  case False
  let ?g = "\<lambda>e. if event_id e \<in> set ids \<and> uid = Some (user_id e) \<and> x = user_id e
                  then e\<lparr>status := s\<rparr> else e"
  let ?p = "\<lparr>set_user_id = Some x, set_status = Some s\<rparr>"
  show ?thesis
  proof (cases "\<exists>e \<in> set (events db). events_update_target uid ids e \<and> x \<noteq> user_id e")
    case True
    then have "update_events uid ?p ids db = Inl RlsViolation"
      by (auto simp: update_events_def Let_def list_all_iff events_update_target_iff
            events_update_using_def events_select_def auth_uid_eq_def apply_patch_def)
    moreover have "map ?g (events db) = events db"
    proof -
      from True have "uid \<noteq> Some x"
        by (auto simp: events_update_target_iff)
      then have "?g e = e" for e
        by auto
      then show ?thesis
        by (intro map_idI)
    qed
    ultimately show ?thesis using False by (simp add: supabase_call_def)
  next
    case none: False
    then have "update_events uid ?p ids db =
        Inr (db\<lparr>events := map (\<lambda>e. if events_update_target uid ids e then apply_patch ?p e else e)
                              (events db)\<rparr>)"
      using assms
      by (auto simp: update_events_def Let_def list_all_iff events_update_target_iff
            events_update_using_def events_select_def auth_uid_eq_def apply_patch_def)
    moreover have "map (\<lambda>e. if events_update_target uid ids e then apply_patch ?p e else e)
                     (events db) = map ?g (events db)"
      using none by (auto simp: events_update_target_iff apply_patch_def)
    ultimately show ?thesis using False by (simp add: supabase_call_def)
  qed
qed

lemma handleAcceptSwap_explicit:
  "snd (handleAcceptSwap user net request db) =
     (if lost net 0 then db
      else
        (let db1 = db\<lparr>swap_requests :=
                   map (accept_request_row user (request_id request)) (swap_requests db)\<rparr>;
             db2 = (if lost net 1 then db1
                    else db1\<lparr>events :=
                           map (hand_over_row user (recipient_id request)
                                  (ref_id (requester_event request))) (events db1)\<rparr>)
         in if lost net 2 then db2
            else db2\<lparr>events :=
                   map (hand_over_row user (requester_id request)
                          (ref_id (recipient_event request))) (events db2)\<rparr>))"
proof -
  have busy: "events_status_check ''BUSY''" and acc: "requests_status_check ''ACCEPTED''"
    by (simp_all add: events_status_check_def requests_status_check_def)
  have h: "(\<lambda>r. if request_id r = rid \<and> uid = Some (recipient_id r)
                 then r\<lparr>request_status := ''ACCEPTED''\<rparr> else r) = accept_request_row uid rid"
    for uid rid
    by (simp add: accept_request_row_def fun_eq_iff)
  have g: "(\<lambda>e. if event_id e \<in> set [eid] \<and> uid = Some (user_id e) \<and> x = user_id e
                 then e\<lparr>status := ''BUSY''\<rparr> else e) = hand_over_row uid x eid"
    for uid x eid
    by (simp add: hand_over_row_def fun_eq_iff)
  show ?thesis
    unfolding handleAcceptSwap_store update_events_owner_effect [OF busy] g
    by (simp add: supabase_call_def update_swap_requests_effect [OF acc] h Let_def)
qed

lemma accept_request_row_twice [simp]:
  "accept_request_row uid rid (accept_request_row uid rid r) = accept_request_row uid rid r"
  by (simp add: accept_request_row_def)

lemma hand_over_row_absorb [simp]:
  "hand_over_row uid x eid (hand_over_row uid x eid e) = hand_over_row uid x eid e"
  "hand_over_row uid x eid (hand_over_row uid y eid' (hand_over_row uid x eid e))
     = hand_over_row uid y eid' (hand_over_row uid x eid e)"
  by (auto simp: hand_over_row_def)


lemma user_id_hand_over_row [simp]: "user_id (hand_over_row uid x eid e) = user_id e"
  by (simp add: hand_over_row_def)

text \<open>
  The handlers write only the three status values of the \<^verbatim>\<open>CHECK\<close> constraint: an
  insert writes \<^verbatim>\<open>BUSY\<close>, an update one of the literals below (the toggle writes
  \<^verbatim>\<open>SWAPPABLE\<close> or \<^verbatim>\<open>BUSY\<close>), so the constraint never refuses one of their
  statements.
\<close>

lemma update_events_check_passes:
  assumes "s \<in> {''BUSY'', ''SWAPPABLE'', ''SWAP_PENDING''}"
  shows "update_events uid \<lparr>set_user_id = x, set_status = Some s\<rparr> ids db \<noteq> Inl CheckViolation"
  using assms
  by (auto simp: update_events_def Let_def list_all_iff apply_patch_def events_status_check_def)

lemma insert_event_check_passes:
  "insert_event uid (e\<lparr>status := ''BUSY''\<rparr>) db \<noteq> Inl CheckViolation"
  by (simp add: insert_event_def events_status_check_def)

subsection \<open>Rows of other users\<close>

text \<open>
  The \<^verbatim>\<open>UPDATE\<close> policy on \<^verbatim>\<open>events\<close> admits only the caller's own rows, so no
  update sent from a session changes a row that belongs to somebody else, and none
  changes the owner of a row.
\<close>

lemma update_events_foreign_row:
  assumes "e \<in> set (events db)" and "uid \<noteq> Some (user_id e)"
  shows "e \<in> set (events (store_after db (supabase_call dropped (update_events uid p ids) db)))"
proof (cases "supabase_call dropped (update_events uid p ids) db")
  case (Inl err)
  then show ?thesis using assms(1) by simp
next
  case (Inr db')
  let ?f = "\<lambda>x. if events_update_target uid ids x then apply_patch p x else x"
  have "events db' = map ?f (events db)"
    using Inr by (auto simp: supabase_call_def update_events_def Let_def split: if_splits)
  moreover have "?f e = e"
    using assms(2) by (simp add: events_update_target_iff)
  moreover have "?f e \<in> set (map ?f (events db))"
    using assms(1) by simp
  ultimately show ?thesis using Inr by simp
qed

lemma update_swap_requests_events:
  "events (store_after db (supabase_call dropped (update_swap_requests uid s rid) db)) = events db"
  by (auto simp: supabase_call_def update_swap_requests_def Let_def store_after_def
        split: sum.splits if_splits)

lemma insert_swap_request_events:
  "events (store_after db (supabase_call dropped (insert_swap_request uid r) db)) = events db"
  by (auto simp: supabase_call_def insert_swap_request_def store_after_def
        split: sum.splits if_splits)

lemma requestSwap_foreign_row:
  assumes "e \<in> set (events db)" and "user \<noteq> Some (user_id e)"
  shows "e \<in> set (events (snd (requestSwap user net new_id myEventId selectedSlot db)))"
proof (cases "user")
  case None
  then show ?thesis using assms(1) by (simp add: requestSwap_store)
next
  case (Some u)
  show ?thesis
  proof (cases selectedSlot)
    case None
    then show ?thesis using assms(1) Some by (simp add: requestSwap_store)
  next
    case (Some slot)
    let ?r = "\<lparr>request_id = new_id, requester_id = u, requester_event_id = myEventId,
                recipient_id = user_id slot, recipient_event_id = event_id slot,
                request_status = ''PENDING''\<rparr>"
    let ?c = "supabase_call (lost net 0) (insert_swap_request user ?r) db"
    have "e \<in> set (events (store_after db ?c))"
      using assms(1) by (simp add: insert_swap_request_events)
    then show ?thesis
      using assms \<open>user = Some u\<close> Some update_events_foreign_row [of e _ user]
      by (cases ?c) (simp_all add: requestSwap_store)
  qed
qed

lemma handleRejectSwap_foreign_row:
  assumes "e \<in> set (events db)" and "user \<noteq> Some (user_id e)"
  shows "e \<in> set (events (snd (handleRejectSwap user net request db)))"
proof -
  let ?c = "supabase_call (lost net 0)
              (update_swap_requests user ''REJECTED'' (request_id request)) db"
  have "e \<in> set (events (store_after db ?c))"
    using assms(1) by (simp add: update_swap_requests_events)
  then show ?thesis
    using assms update_events_foreign_row [of e _ user]
    by (cases ?c) (simp_all add: handleRejectSwap_store)
qed

lemma handleAcceptSwap_foreign_row:
  assumes "e \<in> set (events db)" and "user \<noteq> Some (user_id e)"
  shows "e \<in> set (events (snd (handleAcceptSwap user net request db)))"
proof -
  let ?c = "supabase_call (lost net 0)
              (update_swap_requests user ''ACCEPTED'' (request_id request)) db"
  have "e \<in> set (events (store_after db ?c))"
    using assms(1) by (simp add: update_swap_requests_events)
  then show ?thesis
    using assms update_events_foreign_row [of e _ user]
    by (cases ?c) (simp_all add: handleAcceptSwap_store Let_def)
qed

lemma handleAcceptSwap_keeps_owners:
  "map user_id (events (snd (handleAcceptSwap user net request db))) = map user_id (events db)"
  by (simp add: handleAcceptSwap_explicit Let_def o_def)

text \<open>
  Hence the accept handler cannot complete between two users: whenever the recipient
  owns the event asked of him and the requester is somebody else, the write that would
  hand that event over is refused, and the handler ends in one of its two error
  branches.
\<close>

lemma update_events_keeps_id_owner:
  "map (\<lambda>e. (event_id e, user_id e))
     (events (store_after db (supabase_call dropped (update_events uid p ids) db)))
   = map (\<lambda>e. (event_id e, user_id e)) (events db)"
proof (cases "supabase_call dropped (update_events uid p ids) db")
  case (Inl err)
  then show ?thesis by simp
next
  case (Inr db')
  let ?f = "\<lambda>x. if events_update_target uid ids x then apply_patch p x else x"
  from Inr have upd: "update_events uid p ids db = Inr db'"
    by (simp add: supabase_call_def split: if_splits)
  then have ev: "events db' = map ?f (events db)"
    by (auto simp: update_events_def Let_def split: if_splits)
  from upd have chk: "list_all (\<lambda>n. events_update_using uid n)
      (map (apply_patch p) (filter (events_update_target uid ids) (events db)))"
    by (auto simp: update_events_def Let_def list_all_iff split: if_splits)
  have "(event_id (?f e), user_id (?f e)) = (event_id e, user_id e)"
    if "e \<in> set (events db)" for e
  proof (cases "events_update_target uid ids e")
    case False
    then show ?thesis by simp
  next
    case True
    then have "events_update_using uid (apply_patch p e)"
      using chk that by (auto simp: list_all_iff)
    then show ?thesis
      using True
      by (auto simp: events_update_target_iff events_update_using_def auth_uid_eq_def)
  qed
  then have "map (\<lambda>e. (event_id e, user_id e)) (map ?f (events db))
               = map (\<lambda>e. (event_id e, user_id e)) (events db)"
    by (simp add: o_def)
  then show ?thesis using Inr ev by simp
qed

lemma accept_between_two_users_fails:
  assumes "e2 \<in> set (events db)" and "event_id e2 = ref_id (recipient_event request)"
    and "requester_id request \<noteq> user_id e2"
  shows "fst (handleAcceptSwap (Some (user_id e2)) net request db)
           \<in> {Error ''Failed to accept swap'', Error ''Failed to swap events''}"
proof (cases "supabase_call (lost net 0)
                (update_swap_requests (Some (user_id e2)) ''ACCEPTED'' (request_id request)) db")
  case (Inl err)
  then show ?thesis by (simp add: handleAcceptSwap_def)
next
  case (Inr db1)
  let ?u = "Some (user_id e2)"
  let ?swap1 = "supabase_call (lost net 1)
                 (update_events ?u
                    \<lparr>set_user_id = Some (recipient_id request), set_status = Some ''BUSY''\<rparr>
                    [ref_id (requester_event request)]) db1"
  let ?db2 = "store_after db1 ?swap1"
  let ?p = "\<lparr>set_user_id = Some (requester_id request), set_status = Some ''BUSY''\<rparr>"
  let ?swap2 = "supabase_call (lost net 2)
                 (update_events ?u ?p [ref_id (recipient_event request)]) ?db2"
  have "events db1 = events db"
    using update_swap_requests_events [of db "lost net 0" ?u "''ACCEPTED''" "request_id request"] Inr
    by simp
  then have "(event_id e2, user_id e2) \<in> set (map (\<lambda>e. (event_id e, user_id e)) (events db1))"
    using assms(1) by force
  then have "(event_id e2, user_id e2) \<in> set (map (\<lambda>e. (event_id e, user_id e)) (events ?db2))"
    by (simp only: update_events_keeps_id_owner)
  then obtain e' where e': "e' \<in> set (events ?db2)" "event_id e' = event_id e2"
      "user_id e' = user_id e2"
    by auto
  have "isl ?swap2"
  proof (cases "lost net 2")
    case True
    then show ?thesis by (simp add: supabase_call_def)
  next
    case False
    have "events_update_target ?u [ref_id (recipient_event request)] e'"
      using e' assms(2) by (simp add: events_update_target_iff)
    moreover have "\<not> events_update_using ?u (apply_patch ?p e')"
      using assms(3) by (simp add: events_update_using_def auth_uid_eq_def apply_patch_def)
    ultimately have "update_events ?u ?p [ref_id (recipient_event request)] ?db2 = Inl RlsViolation"
      using e'(1) by (auto simp: update_events_def Let_def list_all_iff)
    then show ?thesis using False by (simp add: supabase_call_def)
  qed
  then show ?thesis
    using Inr by (simp add: handleAcceptSwap_def Let_def)
qed

text \<open>
  The success notification of the accept handler says little by itself: it appears
  whenever no call came back with an error, and a statement that sees no row is not an
  error. From a page without a session every statement sees no row.
\<close>

lemma accept_without_session:
  "handleAcceptSwap None [] request db
     = (Success ''Swap accepted! Events have been exchanged.'', db)"
proof -
  have "map (\<lambda>r. if requests_update_target None rid r then f r else r) rs = rs" for rid f rs
    by (induction rs)
      (simp_all add: requests_update_target_def requests_update_using_def auth_uid_eq_def)
  moreover have "map (\<lambda>e. if events_update_target None ids e then g e else e) es = es"
    for ids g es
    by (induction es) (simp_all add: events_update_target_iff)
  moreover have "filter (requests_update_target None rid) rs = []" for rid rs
    by (induction rs)
      (simp_all add: requests_update_target_def requests_update_using_def auth_uid_eq_def)
  moreover have "filter (events_update_target None ids) es = []" for ids es
    by (induction es) (simp_all add: events_update_target_iff)
  ultimately show ?thesis
    by (simp add: handleAcceptSwap_def supabase_call_def lost_def update_swap_requests_def
          update_events_def Let_def)
qed

subsection \<open>Deleting and toggling one's own event\<close>

lemma delete_own_event:
  assumes "distinct (event_ids db)" and "e \<in> set (events db)"
  shows "delete_events (Some (user_id e)) (event_id e) db =
     Inr (db\<lparr>events := filter (\<lambda>x. event_id x \<noteq> event_id e) (events db),
            swap_requests :=
              filter (\<lambda>r. requester_event_id r \<noteq> event_id e
                            \<and> recipient_event_id r \<noteq> event_id e) (swap_requests db)\<rparr>)"
proof -
  let ?t = "events_delete_target (Some (user_id e)) (event_id e)"
  have same: "x = e" if "x \<in> set (events db)" and "event_id x = event_id e" for x
    using assms that by (auto simp: event_ids_def distinct_map inj_on_def)
  have t: "?t x \<longleftrightarrow> event_id x = event_id e" if "x \<in> set (events db)" for x
    using same [OF that]
    by (auto simp: events_delete_target_def events_select_def events_delete_using_def
          auth_uid_eq_def)
  have keep: "filter (\<lambda>x. \<not> ?t x) (events db)
                = filter (\<lambda>x. event_id x \<noteq> event_id e) (events db)"
    by (rule filter_cong) (simp_all add: t)
  have "filter ?t (events db) = filter (\<lambda>x. event_id x = event_id e) (events db)"
    by (rule filter_cong) (simp_all add: t)
  then have gone: "set (map event_id (filter ?t (events db))) = {event_id e}"
    using assms(2) by auto
  show ?thesis
    unfolding delete_events_def Let_def keep gone by simp
qed

lemma set_own_status:
  assumes "distinct (event_ids db)" and "e \<in> set (events db)"
  shows "map (\<lambda>x. if event_id x = event_id e \<and> user_id e = user_id x
                   then x\<lparr>status := s\<rparr> else x) (events db)
         = map (\<lambda>x. if event_id x = event_id e then x\<lparr>status := s\<rparr> else x) (events db)"
proof (rule map_cong [OF refl])
  fix x assume "x \<in> set (events db)"
  then have "x = e" if "event_id x = event_id e"
    using assms that by (auto simp: event_ids_def distinct_map inj_on_def)
  then show "(if event_id x = event_id e \<and> user_id e = user_id x
              then x\<lparr>status := s\<rparr> else x)
           = (if event_id x = event_id e then x\<lparr>status := s\<rparr> else x)"
    by auto
qed

section \<open>Stores reached by sequences of actions\<close>

lemmas scenario_defs = slot_a_def slot_b_def store_listed_def store_proposed_def
  pending_request_def inbox_request_def

lemmas policy_defs = auth_uid_eq_def events_select_def events_insert_check_def
  events_update_using_def events_delete_using_def requests_select_def
  requests_insert_check_def requests_update_using_def events_status_check_def
  requests_status_check_def

lemmas statement_defs = insert_event_def insert_swap_request_def update_events_def
  update_swap_requests_def delete_events_def events_update_target_def
  requests_update_target_def events_delete_target_def apply_patch_def
  event_ids_def request_ids_def supabase_call_def lost_def

lemma perform_ok: "store_ok db \<Longrightarrow> store_ok (perform a db)"
  by (cases a)
    (simp_all add: handleCreateEvent_ok toggleSwappable_ok deleteEvent_ok requestSwap_ok
       handleAcceptSwap_ok handleRejectSwap_ok)

lemma fold_perform_ok: "store_ok db \<Longrightarrow> store_ok (fold perform as db)"
  by (induction as arbitrary: db) (simp_all add: perform_ok)

lemma run_store_ok: "store_ok (run as)"
proof -
  have "store_ok empty_store"
    by (simp add: store_ok_def status_ok_def references_ok_def keys_ok_def empty_store_def
          event_ids_def request_ids_def)
  then show ?thesis
    unfolding run_def by (rule fold_perform_ok)
qed

lemma store_listed_run: "run (take 4 exchange_actions) = store_listed"
  by (simp add: run_def exchange_actions_def empty_store_def handleCreateEvent_def
        toggleSwappable_def Let_def scenario_defs policy_defs statement_defs)

lemma store_proposed_run: "run exchange_actions = store_proposed"
  by (simp add: run_def exchange_actions_def empty_store_def handleCreateEvent_def
        toggleSwappable_def requestSwap_def Let_def scenario_defs policy_defs statement_defs)

section \<open>The claims\<close>

subsection \<open>C1: accepting a request\<close>

text \<open>
  Claim C1. For a request \<open>r\<close> with status \<^verbatim>\<open>PENDING\<close>, after Accept the request is
  \<^verbatim>\<open>ACCEPTED\<close>, the requester's event belongs to the recipient, the recipient's event
  to the requester, and both events are \<^verbatim>\<open>BUSY\<close>.

  The handler attempts exactly this (its comment reads
  \<^verbatim>\<open>Swap the user_ids on both events\<close>), but the policy
  \<^verbatim>\<open>Users can update their own events\<close> of the migration stands in the way. In the
  worked exchange Bob accepts Alice's request: the request becomes \<^verbatim>\<open>ACCEPTED\<close>; the
  write to Alice's event matches no row Bob may update; the write that hands Bob's event
  to Alice is refused, because the new row would no longer be Bob's. The handler ends
  with \<^verbatim>\<open>Failed to swap events\<close>, and both events keep their owner and their status.
  The lemmas \<open>handleAcceptSwap_keeps_owners\<close> and \<open>accept_between_two_users_fails\<close>
  show that this is no accident of the example: no run of the handler changes the owner
  of any event, and no Accept by a recipient who owns the event asked of him, for a
  request of somebody else, ends in success.
\<close>

theorem accept_exchanges_no_owner:
  "handleAcceptSwap (Some ''bob'') [] inbox_request store_proposed
     = (Error ''Failed to swap events'',
        store_proposed\<lparr>swap_requests := [pending_request\<lparr>request_status := ''ACCEPTED''\<rparr>]\<rparr>)
   \<and> map (\<lambda>e. (event_id e, user_id e, status e))
         (events (snd (handleAcceptSwap (Some ''bob'') [] inbox_request store_proposed)))
       = [(''e1'', ''alice'', ''SWAP_PENDING''), (''e2'', ''bob'', ''SWAPPABLE'')]"
  by (simp add: handleAcceptSwap_def scenario_defs policy_defs statement_defs)

subsection \<open>C2: proposing when a slot is not swappable\<close>

text \<open>
  Claim C2. A Propose for which, at commit time, one of the two events is not
  \<^verbatim>\<open>SWAPPABLE\<close> fails with a conflict error, creates no request and changes no event
  status.

  \<open>requestSwap\<close> never reads a status: neither the handler nor the store compares it
  with anything. Counterexample: Alice's slot is \<^verbatim>\<open>BUSY\<close>, and her proposal still
  succeeds, creates the request and moves her slot to \<^verbatim>\<open>SWAP_PENDING\<close>.
\<close>

theorem requestSwap_accepts_busy_slot:
  "requestSwap (Some ''alice'') [] ''r1'' ''e1'' (Some slot_b)
      (store_listed\<lparr>events := [slot_a\<lparr>status := ''BUSY''\<rparr>, slot_b]\<rparr>)
     = (Success ''Swap request sent!'',
        \<lparr>events = [slot_a\<lparr>status := ''SWAP_PENDING''\<rparr>, slot_b],
         swap_requests = [pending_request]\<rparr>)"
  by (simp add: requestSwap_def scenario_defs policy_defs statement_defs)

text \<open>
  Claim C2, amended. Propose makes no status check at commit. Whenever the offered event
  is the caller's, the wanted event exists, the request id is new and both calls reach
  the store, it succeeds whatever the two statuses are: exactly one request, with status
  \<^verbatim>\<open>PENDING\<close> and naming the two events, is added, and the caller's offered event
  becomes \<^verbatim>\<open>SWAP_PENDING\<close>.
\<close>

theorem requestSwap_succeeds_whatever_status:
  assumes "mine \<in> set (events db)" and "event_id slot \<in> set (event_ids db)"
    and "new_id \<notin> set (request_ids db)"
  shows "fst (requestSwap (Some (user_id mine)) [] new_id (event_id mine) (Some slot) db)
           = Success ''Swap request sent!''
     \<and> swap_requests
          (snd (requestSwap (Some (user_id mine)) [] new_id (event_id mine) (Some slot) db))
           = swap_requests db @
              [\<lparr>request_id = new_id, requester_id = user_id mine,
                requester_event_id = event_id mine, recipient_id = user_id slot,
                recipient_event_id = event_id slot, request_status = ''PENDING''\<rparr>]
     \<and> mine\<lparr>status := ''SWAP_PENDING''\<rparr>
           \<in> set (events (snd (requestSwap (Some (user_id mine)) [] new_id (event_id mine)
                                   (Some slot) db)))"
proof -
  let ?new = "\<lparr>request_id = new_id, requester_id = user_id mine,
                requester_event_id = event_id mine, recipient_id = user_id slot,
                recipient_event_id = event_id slot, request_status = ''PENDING''\<rparr>"
  let ?lock = "\<lambda>e. if event_id e \<in> set [event_id mine, event_id slot]
                          \<and> Some (user_id mine) = Some (user_id e)
                     then e\<lparr>status := ''SWAP_PENDING''\<rparr> else e"
  have ok: "events_status_check ''SWAP_PENDING''"
    by (simp add: events_status_check_def)
  have m: "event_id mine \<in> set (event_ids db)"
    using assms(1) by (simp add: event_ids_def)
  have res: "requestSwap (Some (user_id mine)) [] new_id (event_id mine) (Some slot) db =
      (Success ''Swap request sent!'',
       db\<lparr>swap_requests := swap_requests db @ [?new], events := map ?lock (events db)\<rparr>)"
    using assms(2,3) m
    by (simp add: requestSwap_def supabase_call_def lost_def insert_swap_request_def
          requests_insert_check_def requests_status_check_def auth_uid_eq_def
          update_events_status_effect [OF ok])
  have "?lock mine \<in> set (map ?lock (events db))"
    using assms(1) by (intro imageI [of mine "set (events db)" ?lock, folded set_map])
  then have "mine\<lparr>status := ''SWAP_PENDING''\<rparr> \<in> set (map ?lock (events db))"
    by simp
  then show ?thesis
    unfolding res by simp
qed

theorem requestSwap_succeeds_whatever_status_witness:
  "slot_a\<lparr>status := ''BUSY''\<rparr>
     \<in> set (events (store_listed\<lparr>events := [slot_a\<lparr>status := ''BUSY''\<rparr>, slot_b]\<rparr>))
   \<and> event_id slot_b
     \<in> set (event_ids (store_listed\<lparr>events := [slot_a\<lparr>status := ''BUSY''\<rparr>, slot_b]\<rparr>))
   \<and> ''r1'' \<notin> set (request_ids (store_listed\<lparr>events := [slot_a\<lparr>status := ''BUSY''\<rparr>, slot_b]\<rparr>))
   \<and> fst (requestSwap (Some ''alice'') [] ''r1'' ''e1'' (Some slot_b)
            (store_listed\<lparr>events := [slot_a\<lparr>status := ''BUSY''\<rparr>, slot_b]\<rparr>))
        = Success ''Swap request sent!''
   \<and> swap_requests (snd (requestSwap (Some ''alice'') [] ''r1'' ''e1'' (Some slot_b)
            (store_listed\<lparr>events := [slot_a\<lparr>status := ''BUSY''\<rparr>, slot_b]\<rparr>)))
        = [pending_request]
   \<and> slot_a\<lparr>status := ''SWAP_PENDING''\<rparr>
        \<in> set (events (snd (requestSwap (Some ''alice'') [] ''r1'' ''e1'' (Some slot_b)
            (store_listed\<lparr>events := [slot_a\<lparr>status := ''BUSY''\<rparr>, slot_b]\<rparr>))))"
proof -
  let ?db = "store_listed\<lparr>events := [slot_a\<lparr>status := ''BUSY''\<rparr>, slot_b]\<rparr>"
  have a: "slot_a\<lparr>status := ''BUSY''\<rparr> \<in> set (events ?db)"
    and b: "event_id slot_b \<in> set (event_ids ?db)"
    and c: "''r1'' \<notin> set (request_ids ?db)"
    by (simp_all add: scenario_defs event_ids_def request_ids_def)
  show ?thesis
    using requestSwap_succeeds_whatever_status [OF a b c] a b c
    by (simp add: scenario_defs)
qed

subsection \<open>C3: proposing a swap\<close>

text \<open>
  Claim C3. For two \<^verbatim>\<open>SWAPPABLE\<close> events \<open>a\<close> and \<open>b\<close> of two distinct users, after a
  successful Propose both events are \<^verbatim>\<open>SWAP_PENDING\<close> and exactly one new request
  with status \<^verbatim>\<open>PENDING\<close> names the pair.

  The handler's second call is commented \<^verbatim>\<open>Update both events to SWAP_PENDING\<close>,
  and it names both ids. The store applies it to the caller's event only: the other slot
  belongs to the other user, so the update policy hides it from the statement, and
  hiding a row is no error. Alice's proposal therefore reports
  \<^verbatim>\<open>Swap request sent!\<close> while Bob's slot stays \<^verbatim>\<open>SWAPPABLE\<close>. The lemma
  \<open>requestSwap_foreign_row\<close> shows that this is so for every event the caller does not
  own.
\<close>

theorem requestSwap_locks_only_own_slot:
  "requestSwap (Some ''alice'') [] ''r1'' ''e1'' (Some slot_b) store_listed
     = (Success ''Swap request sent!'', store_proposed)
   \<and> map (\<lambda>e. (event_id e, user_id e, status e)) (events store_listed)
       = [(''e1'', ''alice'', ''SWAPPABLE''), (''e2'', ''bob'', ''SWAPPABLE'')]
   \<and> map (\<lambda>e. (event_id e, user_id e, status e)) (events store_proposed)
       = [(''e1'', ''alice'', ''SWAP_PENDING''), (''e2'', ''bob'', ''SWAPPABLE'')]
   \<and> swap_requests store_proposed = [pending_request]"
  by (simp add: requestSwap_def scenario_defs policy_defs statement_defs)

subsection \<open>C4: rejecting a request\<close>

text \<open>
  Claim C4. For a request \<open>r\<close> with status \<^verbatim>\<open>PENDING\<close>, after a successful Reject the
  request is \<^verbatim>\<open>REJECTED\<close>, both events are \<^verbatim>\<open>SWAPPABLE\<close>, and no event has changed
  its owner.

  The request does become \<^verbatim>\<open>REJECTED\<close> and no owner changes. The second call,
  commented \<^verbatim>\<open>Set both events back to SWAPPABLE\<close>, reaches only the event of the
  user who rejects: when Bob rejects, Alice's slot is hidden from his update and stays
  \<^verbatim>\<open>SWAP_PENDING\<close>, while the handler reports
  \<^verbatim>\<open>Swap rejected. Events are now available again.\<close> The lemma
  \<open>handleRejectSwap_foreign_row\<close> shows that this is so for every event the caller does
  not own.
\<close>

theorem reject_releases_only_own_slot:
  "handleRejectSwap (Some ''bob'') [] inbox_request store_proposed
     = (Success ''Swap rejected. Events are now available again.'', store_rejected)
   \<and> map (\<lambda>e. (event_id e, user_id e, status e)) (events store_rejected)
       = [(''e1'', ''alice'', ''SWAP_PENDING''), (''e2'', ''bob'', ''SWAPPABLE'')]
   \<and> map request_status (swap_requests store_rejected) = [''REJECTED'']"
  by (simp add: handleRejectSwap_def store_rejected_def scenario_defs policy_defs
        statement_defs)

subsection \<open>C5: accepting a request that is already resolved\<close>

text \<open>
  Claim C5. For a request that is no longer \<^verbatim>\<open>PENDING\<close>, Accept fails with a state
  error or does nothing; in particular a second Accept of the same request leaves owners
  and statuses as the first left them.

  The inbox page offers the Accept button only while its own copy of the request says
  \<^verbatim>\<open>PENDING\<close>; the handler and the store never look at the request's current status.
  Counterexample: Bob's page still shows the request as \<^verbatim>\<open>PENDING\<close> although he has
  already rejected it; he accepts, and the status in the store is overwritten from
  \<^verbatim>\<open>REJECTED\<close> to \<^verbatim>\<open>ACCEPTED\<close> (the error reported afterwards comes from the writes
  to the events, not from the status).
\<close>

theorem accept_overwrites_rejected:
  "map request_status (swap_requests store_rejected) = [''REJECTED'']
   \<and> handleAcceptSwap (Some ''bob'') [] inbox_request store_rejected =
       (Error ''Failed to swap events'',
        store_rejected\<lparr>swap_requests := [pending_request\<lparr>request_status := ''ACCEPTED''\<rparr>]\<rparr>)"
  by (simp add: handleAcceptSwap_def store_rejected_def scenario_defs policy_defs
        statement_defs)

text \<open>
  Claim C5, amended. Accept makes no check of the request's status: called by the
  recipient, it writes \<^verbatim>\<open>ACCEPTED\<close> over whatever status the request has. After an
  Accept whose calls all reached the store, a second Accept of the same request,
  whatever happens to its calls on the network, leaves the whole store (the request, and
  every event's owner and status) exactly as the first left it.
\<close>

theorem accept_unchecked_and_idempotent:
  "snd (handleAcceptSwap user net' request (snd (handleAcceptSwap user [] request db)))
     = snd (handleAcceptSwap user [] request db)
   \<and> (r \<in> set (swap_requests db) \<and> request_id r = request_id request
        \<and> user = Some (recipient_id r)
      \<longrightarrow> r\<lparr>request_status := ''ACCEPTED''\<rparr>
            \<in> set (swap_requests (snd (handleAcceptSwap user [] request db))))"
proof -
  have "snd (handleAcceptSwap user net' request (snd (handleAcceptSwap user [] request db)))
     = snd (handleAcceptSwap user [] request db)"
    by (simp add: handleAcceptSwap_explicit [of user net'] handleAcceptSwap_explicit [of user "[]"]
          lost_def Let_def o_def)
  moreover have "r\<lparr>request_status := ''ACCEPTED''\<rparr>
            \<in> set (swap_requests (snd (handleAcceptSwap user [] request db)))"
    if "r \<in> set (swap_requests db)" and "request_id r = request_id request"
      and "user = Some (recipient_id r)"
  proof -
    have "accept_request_row user (request_id request) r
            \<in> accept_request_row user (request_id request) ` set (swap_requests db)"
      using that(1) by (rule imageI)
    then show ?thesis
      using that(2,3)
      by (simp add: handleAcceptSwap_explicit lost_def Let_def accept_request_row_def)
  qed
  ultimately show ?thesis by blast
qed

theorem accept_unchecked_and_idempotent_witness:
  "snd (handleAcceptSwap (Some ''bob'') [] inbox_request
          (snd (handleAcceptSwap (Some ''bob'') [] inbox_request store_rejected)))
     = snd (handleAcceptSwap (Some ''bob'') [] inbox_request store_rejected)
   \<and> pending_request\<lparr>request_status := ''REJECTED''\<rparr> \<in> set (swap_requests store_rejected)
   \<and> request_id (pending_request\<lparr>request_status := ''REJECTED''\<rparr>) = request_id inbox_request
   \<and> Some ''bob'' = Some (recipient_id (pending_request\<lparr>request_status := ''REJECTED''\<rparr>))
   \<and> pending_request\<lparr>request_status := ''ACCEPTED''\<rparr>
        \<in> set (swap_requests (snd (handleAcceptSwap (Some ''bob'') [] inbox_request store_rejected)))"
proof -
  have a: "pending_request\<lparr>request_status := ''REJECTED''\<rparr> \<in> set (swap_requests store_rejected)"
    and b: "request_id (pending_request\<lparr>request_status := ''REJECTED''\<rparr>) = request_id inbox_request"
    and c: "Some ''bob'' = Some (recipient_id (pending_request\<lparr>request_status := ''REJECTED''\<rparr>))"
    by (simp_all add: store_rejected_def scenario_defs)
  show ?thesis
    using accept_unchecked_and_idempotent [of "Some ''bob''" "[]" inbox_request store_rejected
        "pending_request\<lparr>request_status := ''REJECTED''\<rparr>"] a b c
    by simp
qed

subsection \<open>C6: toggling a slot\<close>

text \<open>
  Claim C6. Toggle is permitted only for an event whose status is not \<^verbatim>\<open>SWAP_PENDING\<close>:
  on such an event the attempt yields an error and changes nothing; otherwise it flips
  the status between \<^verbatim>\<open>BUSY\<close> and \<^verbatim>\<open>SWAPPABLE\<close>.

  The guard of \<open>toggleSwappable\<close> reads the status the dashboard hands over, which is
  the page's copy, and the update policy of the store tests only who owns the row;
  nothing compares the status in the store. Counterexample: Alice's dashboard still shows
  her slot as \<^verbatim>\<open>SWAPPABLE\<close>, as it was before she offered it; in the store the slot is
  \<^verbatim>\<open>SWAP_PENDING\<close>. Her toggle succeeds and overwrites the status with \<^verbatim>\<open>BUSY\<close>.
\<close>

theorem stale_toggle_overwrites_pending:
  "map (\<lambda>e. (event_id e, user_id e, status e)) (events store_proposed)
     = [(''e1'', ''alice'', ''SWAP_PENDING''), (''e2'', ''bob'', ''SWAPPABLE'')]
   \<and> toggleSwappable (Some ''alice'') [] ''e1'' ''SWAPPABLE'' store_proposed
     = (Success ''Event marked as busy'',
        \<lparr>events = [slot_a\<lparr>status := ''BUSY''\<rparr>, slot_b], swap_requests = [pending_request]\<rparr>)"
  by (simp add: toggleSwappable_def Let_def scenario_defs policy_defs statement_defs)

text \<open>
  Claim C6, amended. Toggle is refused when the status handed to the handler, the one the
  caller's page shows for the event, is \<^verbatim>\<open>SWAP_PENDING\<close>: the attempt then yields an
  error and leaves the store unchanged, in every session. For any other status handed
  over, a toggle by the owner that reaches the store succeeds and sets the event's
  status to \<^verbatim>\<open>SWAPPABLE\<close> when the status handed over is \<^verbatim>\<open>BUSY\<close> and to \<^verbatim>\<open>BUSY\<close>
  otherwise, whatever status the store holds, and changes no other event. For a page
  whose copy is current this is the flip between \<^verbatim>\<open>BUSY\<close> and \<^verbatim>\<open>SWAPPABLE\<close>.
\<close>

theorem toggle_follows_status_shown:
  assumes "e \<in> set (events db)" and "distinct (event_ids db)"
  shows "toggleSwappable user net (event_id e) ''SWAP_PENDING'' db
           = (Error ''Cannot modify event with pending swap'', db)
     \<and> toggleSwappable (Some (user_id e)) [] (event_id e) currentStatus db =
         (if currentStatus = ''SWAP_PENDING''
            then (Error ''Cannot modify event with pending swap'', db)
          else if currentStatus = ''BUSY''
            then (Success ''Event marked as swappable'',
                  db\<lparr>events := map (\<lambda>x. if event_id x = event_id e
                                          then x\<lparr>status := ''SWAPPABLE''\<rparr> else x) (events db)\<rparr>)
          else (Success ''Event marked as busy'',
                db\<lparr>events := map (\<lambda>x. if event_id x = event_id e
                                        then x\<lparr>status := ''BUSY''\<rparr> else x) (events db)\<rparr>))"
proof -
  have ok: "events_status_check ''SWAPPABLE''" "events_status_check ''BUSY''"
    by (simp_all add: events_status_check_def)
  show ?thesis
    by (simp add: toggleSwappable_def Let_def supabase_call_def lost_def
          update_events_status_effect [OF ok(1)] update_events_status_effect [OF ok(2)]
          set_own_status [OF assms(2) assms(1)])
qed

theorem toggle_follows_status_shown_witness:
  "slot_a\<lparr>status := ''SWAP_PENDING''\<rparr> \<in> set (events store_proposed)
   \<and> distinct (event_ids store_proposed)
   \<and> toggleSwappable (Some ''alice'') [] ''e1'' ''SWAP_PENDING'' store_proposed
        = (Error ''Cannot modify event with pending swap'', store_proposed)
   \<and> slot_b \<in> set (events store_proposed)
   \<and> toggleSwappable (Some ''bob'') [] ''e2'' ''SWAPPABLE'' store_proposed
        = (Success ''Event marked as busy'',
           \<lparr>events = [slot_a\<lparr>status := ''SWAP_PENDING''\<rparr>, slot_b\<lparr>status := ''BUSY''\<rparr>],
            swap_requests = [pending_request]\<rparr>)
   \<and> toggleSwappable (Some ''bob'') [] ''e2'' ''BUSY'' store_proposed
        = (Success ''Event marked as swappable'',
           \<lparr>events = [slot_a\<lparr>status := ''SWAP_PENDING''\<rparr>, slot_b],
            swap_requests = [pending_request]\<rparr>)"
proof -
  have a: "slot_a\<lparr>status := ''SWAP_PENDING''\<rparr> \<in> set (events store_proposed)"
    and b: "slot_b \<in> set (events store_proposed)"
    and d: "distinct (event_ids store_proposed)"
    by (simp_all add: scenario_defs event_ids_def)
  show ?thesis
    using toggle_follows_status_shown [OF a d, of "Some ''alice''" "[]" "''SWAP_PENDING''"]
      toggle_follows_status_shown [OF b d, of "Some ''bob''" "[]" "''SWAPPABLE''"]
      toggle_follows_status_shown [OF b d, of "Some ''bob''" "[]" "''BUSY''"] a b d
    by (simp add: scenario_defs)
qed

subsection \<open>C7: deleting an event that a pending request names\<close>

text \<open>
  Claim C7. Deleting an event named by a \<^verbatim>\<open>PENDING\<close> request is either refused with a
  conflict error or resolves the request to a terminal state other than \<^verbatim>\<open>ACCEPTED\<close>;
  in no reachable state does a \<^verbatim>\<open>PENDING\<close> request name an event that does not exist.

  The deletion is not refused, and the request is not moved to a terminal state: both
  foreign keys of \<^verbatim>\<open>swap_requests\<close> are declared \<^verbatim>\<open>ON DELETE CASCADE\<close>, so the
  request row is removed together with the event. Counterexample: Alice deletes the slot
  she has offered; the deletion succeeds and the store holds no request afterwards,
  while the other slot is left as it was.
\<close>

theorem delete_removes_pending_request:
  "map request_status (swap_requests store_proposed) = [''PENDING'']
   \<and> deleteEvent (Some ''alice'') [] ''e1'' store_proposed
       = (Success ''Event deleted'', \<lparr>events = [slot_b], swap_requests = []\<rparr>)"
  by (simp add: deleteEvent_def Let_def scenario_defs policy_defs statement_defs)

text \<open>
  Claim C7, amended. In the store that any sequence of actions leaves behind, each
  request, whatever its status, names two events that exist. Deleting an event by its owner is never refused on account of a
  request: it removes the event and, with it, every request that names the event as
  either side of the exchange.
\<close>

theorem delete_cascades_and_references_hold:
  assumes "e \<in> set (events (run as))"
  shows "list_all (\<lambda>r. requester_event_id r \<in> set (event_ids (run as))
                        \<and> recipient_event_id r \<in> set (event_ids (run as)))
           (swap_requests (run as))
     \<and> deleteEvent (Some (user_id e)) [] (event_id e) (run as) =
         (Success ''Event deleted'',
          (run as)\<lparr>events := filter (\<lambda>x. event_id x \<noteq> event_id e) (events (run as)),
             swap_requests :=
               filter (\<lambda>r. requester_event_id r \<noteq> event_id e
                             \<and> recipient_event_id r \<noteq> event_id e)
                 (swap_requests (run as))\<rparr>)"
proof -
  let ?db = "run as"
  have ok: "store_ok ?db" by (rule run_store_ok)
  then have "distinct (event_ids ?db)" by (simp add: store_ok_def keys_ok_def)
  then have "delete_events (Some (user_id e)) (event_id e) ?db =
     Inr (?db\<lparr>events := filter (\<lambda>x. event_id x \<noteq> event_id e) (events ?db),
            swap_requests :=
              filter (\<lambda>r. requester_event_id r \<noteq> event_id e
                            \<and> recipient_event_id r \<noteq> event_id e) (swap_requests ?db)\<rparr>)"
    using assms by (rule delete_own_event)
  then show ?thesis
    using ok
    by (simp add: deleteEvent_def supabase_call_def lost_def store_ok_def references_ok_def)
qed

theorem delete_cascades_and_references_hold_witness:
  "run exchange_actions = store_proposed
   \<and> slot_a\<lparr>status := ''SWAP_PENDING''\<rparr> \<in> set (events (run exchange_actions))
   \<and> list_all (\<lambda>r. requester_event_id r \<in> set (event_ids store_proposed)
                     \<and> recipient_event_id r \<in> set (event_ids store_proposed))
        (swap_requests store_proposed)
   \<and> deleteEvent (Some ''alice'') [] ''e1'' store_proposed =
        (Success ''Event deleted'', \<lparr>events = [slot_b], swap_requests = []\<rparr>)"
proof -
  have m: "slot_a\<lparr>status := ''SWAP_PENDING''\<rparr> \<in> set (events (run exchange_actions))"
    by (simp add: store_proposed_run) (simp add: scenario_defs)
  show ?thesis
    using delete_cascades_and_references_hold [OF m] m
    by (simp add: store_proposed_run) (simp add: scenario_defs)
qed

subsection \<open>C8: the status of an event\<close>

text \<open>
  Claim C8. After any sequence of create-event, Toggle, Propose, Accept and Reject (and
  of deletions, and also between two writes of one handler), the status of every event
  is one of \<^verbatim>\<open>BUSY\<close>, \<^verbatim>\<open>SWAPPABLE\<close> and \<^verbatim>\<open>SWAP_PENDING\<close>: no operation writes
  another value (\<open>update_events_check_passes\<close>, \<open>insert_event_check_passes\<close>), and the
  table's \<^verbatim>\<open>CHECK\<close> would refuse one.
\<close>

theorem event_status_always_valid:
  "list_all (\<lambda>e. status e = ''BUSY'' \<or> status e = ''SWAPPABLE''
                   \<or> status e = ''SWAP_PENDING'') (events (run as))"
  using run_store_ok [of as]
  by (simp add: store_ok_def status_ok_def events_status_check_def)

theorem event_status_always_valid_witness:
  "list_all (\<lambda>e. status e = ''BUSY'' \<or> status e = ''SWAPPABLE''
                   \<or> status e = ''SWAP_PENDING'') (events (run exchange_actions))
   \<and> map status (events (run exchange_actions)) = [''SWAP_PENDING'', ''SWAPPABLE'']"
  using event_status_always_valid [of exchange_actions]
  by (simp add: store_proposed_run) (simp add: scenario_defs)

subsection \<open>C9: start and end time of a new event\<close>

text \<open>
  Claim C9. Every event that create-event stores starts strictly before it ends;
  creating an event whose end is not after its start fails with a validation error.

  Neither the form handler nor the table compares the two instants. Counterexample:
  Alice creates an event that starts at 10 and ends at 5, and it is stored.
\<close>

theorem create_event_accepts_backwards_times:
  "handleCreateEvent (Some ''alice'') [] ''e3'' ''Backwards'' 10 5 store_listed =
     (Success ''Event created!'',
      \<lparr>events = [slot_a, slot_b,
         \<lparr>event_id = ''e3'', user_id = ''alice'', title = ''Backwards'',
           start_time = 10, end_time = 5, status = ''BUSY''\<rparr>], swap_requests = []\<rparr>)"
  by (simp add: handleCreateEvent_def scenario_defs policy_defs statement_defs)

text \<open>
  Claim C9, amended. Create-event makes no comparison between start and end: for a
  signed-in user, when the call reaches the store and the generated id is new, the event
  is stored with the two instants exactly as entered and with status \<^verbatim>\<open>BUSY\<close>,
  whatever their order.
\<close>

theorem create_event_stores_times_as_given:
  assumes "new_id \<notin> set (event_ids db)"
  shows "handleCreateEvent (Some u) [] new_id t startTime endTime db =
     (Success ''Event created!'',
      db\<lparr>events := events db @
         [\<lparr>event_id = new_id, user_id = u, title = t,
           start_time = startTime, end_time = endTime, status = ''BUSY''\<rparr>]\<rparr>)"
  using assms
  by (simp add: handleCreateEvent_def supabase_call_def lost_def insert_event_def
        events_insert_check_def auth_uid_eq_def events_status_check_def)

theorem create_event_stores_times_as_given_witness:
  "''e4'' \<notin> set (event_ids store_listed)
   \<and> handleCreateEvent (Some ''bob'') [] ''e4'' ''Instant'' 7 7 store_listed =
     (Success ''Event created!'',
      \<lparr>events = [slot_a, slot_b,
         \<lparr>event_id = ''e4'', user_id = ''bob'', title = ''Instant'',
           start_time = 7, end_time = 7, status = ''BUSY''\<rparr>], swap_requests = []\<rparr>)"
proof -
  have f: "''e4'' \<notin> set (event_ids store_listed)"
    by (simp add: scenario_defs event_ids_def)
  show ?thesis
    using create_event_stores_times_as_given [OF f, of "''bob''" "''Instant''" 7 7] f
    by (simp add: scenario_defs)
qed

subsection \<open>C10: a failed first write stops the handler\<close>

text \<open>
  Claim C10. When the first call of \<open>handleAcceptSwap\<close> or of \<open>handleRejectSwap\<close>, the
  write of the request's status, comes back with an error, the handler reports the
  failure and returns at once: the store, and with it the owner and the status of both
  events, is as it was. (By \<open>update_swap_requests_effect\<close> the statement itself always
  goes through, so the error is one of the network.)
\<close>

theorem first_write_failure_stops:
  "(supabase_call (lost net 0) (update_swap_requests user ''ACCEPTED'' (request_id request)) db
      = Inl err
    \<longrightarrow> handleAcceptSwap user net request db = (Error ''Failed to accept swap'', db))
   \<and> (supabase_call (lost net 0) (update_swap_requests user ''REJECTED'' (request_id request)) db
      = Inl err'
    \<longrightarrow> handleRejectSwap user net request db = (Error ''Failed to reject swap'', db))"
  by (simp add: handleAcceptSwap_def handleRejectSwap_def)

theorem first_write_failure_stops_witness:
  "supabase_call (lost [True] 0)
      (update_swap_requests (Some ''bob'') ''ACCEPTED'' (request_id inbox_request)) store_proposed
      = Inl TransportError
   \<and> handleAcceptSwap (Some ''bob'') [True] inbox_request store_proposed
      = (Error ''Failed to accept swap'', store_proposed)
   \<and> supabase_call (lost [True] 0)
      (update_swap_requests (Some ''bob'') ''REJECTED'' (request_id inbox_request)) store_proposed
      = Inl TransportError
   \<and> handleRejectSwap (Some ''bob'') [True] inbox_request store_proposed
      = (Error ''Failed to reject swap'', store_proposed)"
  using first_write_failure_stops
    [of "[True]" "Some ''bob''" inbox_request store_proposed TransportError TransportError]
  by (simp add: supabase_call_def lost_def)

end
